theory Spec2Isabelle
  imports Main
begin

section \<open>The crawl service of \<^verbatim>\<open>src/app.py\<close>\<close>

text \<open>
  \<^verbatim>\<open>src/app.py\<close> is a FastAPI application with one protected endpoint, \<^verbatim>\<open>POST /crawl\<close>.
  Its own logic is the bearer check \<^verbatim>\<open>verify_api_key\<close>, the request model
  \<^verbatim>\<open>CrawlRequest\<close>, the configuration and error policy of \<^verbatim>\<open>crawl_url\<close>, and the wiring
  of the three in \<^verbatim>\<open>crawl_endpoint\<close>. Fetching, rendering and link traversal are done by
  the imported crawler (\<^verbatim>\<open>AsyncWebCrawler.arun\<close>); the functions below take it as an
  argument, so that what they prove holds for every crawler.
\<close>

subsection \<open>Data\<close>

text \<open>
  A Python exception that reaches \<^verbatim>\<open>crawl_url\<close>'s handler, with its \<^verbatim>\<open>str(e)\<close>.
  \<^verbatim>\<open>except Exception\<close> (line 51) catches the subclasses of \<^verbatim>\<open>Exception\<close> only; a
  \<^verbatim>\<open>BaseException\<close> outside that class (a cancellation, an interrupt) passes through.
\<close>

datatype py_exception = Exception string | BaseException string

text \<open>\<^verbatim>\<open>fastapi.HTTPException(status_code, detail, headers)\<close>; no headers is the empty list.\<close>

record HTTPException =
  status_code :: nat
  detail :: string
  headers :: "(string \<times> string) list"

text \<open>
  What a call of the endpoint can raise instead of returning a body: an \<^verbatim>\<open>HTTPException\<close>,
  answered with its status, detail and headers; the framework's validation error for a
  body it refuses, answered with status \<^verbatim>\<open>422\<close> and no \<^verbatim>\<open>WWW-Authenticate\<close> header; or an
  exception that no handler of \<^verbatim>\<open>src/app.py\<close> catches.
\<close>

datatype failure =
    HTTPError HTTPException
  | RequestValidationError
  | Unhandled py_exception

text \<open>\<^verbatim>\<open>class CrawlRequest(BaseModel)\<close>, lines 27-29; \<open>request_url\<close> is \<^verbatim>\<open>str(request.url)\<close>.\<close>

record CrawlRequest =
  request_url :: string
  request_max_depth :: int

text \<open>\<^verbatim>\<open>class CrawlResult(BaseModel)\<close>, lines 31-33.\<close>

record CrawlResult =
  url :: string
  markdown :: string

text \<open>
  The declared return type \<^verbatim>\<open>Union[List[CrawlResult], CrawlResult]\<close> (lines 35 and 58):
  a value of it is one object or a list of objects, and the two are different JSON bodies.
\<close>

datatype response = Single CrawlResult | Many "CrawlResult list"

text \<open>The arguments \<^verbatim>\<open>crawl_url\<close> passes to the crawler (lines 37-45).\<close>

datatype CacheMode = ENABLED | DISABLED | READ_ONLY | WRITE_ONLY | BYPASS

record BFSDeepCrawlStrategy =
  max_depth :: int
  include_external :: bool

record CrawlerRunConfig =
  magic :: bool
  cache_mode :: CacheMode
  deep_crawl_strategy :: "BFSDeepCrawlStrategy option"
  verbose :: bool

text \<open>
  One element of what \<^verbatim>\<open>crawler.arun\<close> returns. Line 50 reads \<^verbatim>\<open>result.url\<close> and
  \<^verbatim>\<open>result._markdown\<close>, which may be \<^verbatim>\<open>None\<close>. The crawler's result also says whether the
  page was fetched (\<^verbatim>\<open>result.success\<close>); no line of \<^verbatim>\<open>src/app.py\<close> reads that field.
\<close>

record crawled =
  result_url :: string
  success :: bool
  result_markdown :: "string option"

text \<open>\<^verbatim>\<open>str(result._markdown)\<close>: Python prints \<^verbatim>\<open>None\<close> as the text \<^verbatim>\<open>None\<close>.\<close>

definition str :: "string option \<Rightarrow> string" where
  "str m = (case m of None \<Rightarrow> ''None'' | Some s \<Rightarrow> s)"

text \<open>
  The crawler: the body of \<^verbatim>\<open>async with AsyncWebCrawler() as crawler\<close> seen from
  \<^verbatim>\<open>crawl_url\<close>. Given the URL and the configuration it raises or yields results.
\<close>

type_synonym crawler = "string \<Rightarrow> CrawlerRunConfig \<Rightarrow> py_exception + crawled list"

text \<open>The process environment read by \<^verbatim>\<open>os.getenv\<close>.\<close>

type_synonym environ = "string \<rightharpoonup> string"

text \<open>The decoded JSON body of a request: \<^verbatim>\<open>max_depth\<close> may be left out.\<close>

record json_body =
  body_url :: string
  body_max_depth :: "int option"

text \<open>The body as it arrives: bytes that do not decode as JSON, or a decoded body.\<close>

datatype request_body = Undecodable | Decoded json_body

subsection \<open>Authentication (lines 13-25)\<close>

definition getenv :: "environ \<Rightarrow> string \<Rightarrow> string \<Rightarrow> string" where
  "getenv env key dflt = (case env key of None \<Rightarrow> dflt | Some v \<Rightarrow> v)"

definition verify_api_key :: "environ \<Rightarrow> string \<Rightarrow> HTTPException + string" where
  "verify_api_key env credentials =
     (let api_key = getenv env ''API_KEY'' ''admin'' in
      if credentials \<noteq> api_key
      then Inl \<lparr>status_code = 401, detail = ''Invalid API key'',
                headers = [(''WWW-Authenticate'', ''Bearer'')]\<rparr>
      else Inr credentials)"

text \<open>
  Modelled from the spec: \<^verbatim>\<open>security = HTTPBearer()\<close> (line 14) is the framework's bearer
  extractor, whose code is not under \<^verbatim>\<open>src/\<close>. It hands the token of an
  \<^verbatim>\<open>Authorization: Bearer <token>\<close> header to \<^verbatim>\<open>verify_api_key\<close>; for a request without
  one the spec (section 6, "Auth failure") gives a \<^verbatim>\<open>401\<close> with an error detail and the
  header \<^verbatim>\<open>WWW-Authenticate: Bearer\<close>.
\<close>

definition HTTPBearer :: "string option \<Rightarrow> HTTPException + string" where
  "HTTPBearer authorization =
     (case authorization of
        None \<Rightarrow> Inl \<lparr>status_code = 401, detail = ''Not authenticated'',
                     headers = [(''WWW-Authenticate'', ''Bearer'')]\<rparr>
      | Some token \<Rightarrow> Inr token)"

subsection \<open>The request model (lines 27-29)\<close>

text \<open>
  \<^verbatim>\<open>url: HttpUrl\<close> is pydantic's URL type, taken as the argument \<open>HttpUrl\<close>: it refuses a
  string (\<open>None\<close>) or gives the URL's text as \<^verbatim>\<open>str(request.url)\<close> prints it.
  \<^verbatim>\<open>max_depth: int = 1\<close> has a default and no bound.
\<close>

definition parse_CrawlRequest :: "(string \<Rightarrow> string option) \<Rightarrow> json_body \<Rightarrow> CrawlRequest option" where
  "parse_CrawlRequest HttpUrl body =
     (case HttpUrl (body_url body) of
        None \<Rightarrow> None
      | Some u \<Rightarrow>
          Some \<lparr>request_url = u,
                request_max_depth = (case body_max_depth body of None \<Rightarrow> 1 | Some d \<Rightarrow> d)\<rparr>)"

subsection \<open>\<^verbatim>\<open>crawl_url\<close> (lines 35-52)\<close>

definition config :: "int \<Rightarrow> CrawlerRunConfig" where
  "config d =
     \<lparr>magic = True,
      cache_mode = BYPASS,
      deep_crawl_strategy =
        (if d > 0 then Some \<lparr>max_depth = d, include_external = False\<rparr> else None),
      verbose = True\<rparr>"

text \<open>
  The result is paired with the calls made to the crawler, each with its arguments:
  \<^verbatim>\<open>crawl_url\<close> makes exactly one, whatever its outcome.
\<close>

definition crawl_url ::
  "crawler \<Rightarrow> string \<Rightarrow> int \<Rightarrow> (failure + response) \<times> (string \<times> CrawlerRunConfig) list" where
  "crawl_url crawler u d =
     ((case crawler u (config d) of
         Inr results \<Rightarrow>
           Inr (Many (map (\<lambda>result. \<lparr>url = result_url result,
                                     markdown = str (result_markdown result)\<rparr>) results))
       | Inl (Exception e) \<Rightarrow>
           Inl (HTTPError \<lparr>status_code = 500, detail = ''Crawling failed: '' @ e, headers = []\<rparr>)
       | Inl (BaseException e) \<Rightarrow> Inl (Unhandled (BaseException e))),
      [(u, config d)])"

subsection \<open>\<^verbatim>\<open>crawl_endpoint\<close> (lines 58-68)\<close>

text \<open>
  The framework's order for a route with a body parameter and a dependency: it decodes the
  JSON body first, and a body that does not decode is refused with its \<^verbatim>\<open>422\<close> before
  anything else; it then resolves \<^verbatim>\<open>Depends(verify_api_key)\<close>, validates the decoded body
  against \<^verbatim>\<open>CrawlRequest\<close> (a refusal is again its \<^verbatim>\<open>422\<close>), and only then runs the
  function's body.
\<close>

definition crawl_endpoint ::
  "(string \<Rightarrow> string option) \<Rightarrow> environ \<Rightarrow> crawler \<Rightarrow> string option \<Rightarrow> request_body
     \<Rightarrow> (failure + response) \<times> (string \<times> CrawlerRunConfig) list" where
  "crawl_endpoint HttpUrl env crawler authorization body =
     (case body of
        Undecodable \<Rightarrow> (Inl RequestValidationError, [])
      | Decoded json \<Rightarrow>
          (case HTTPBearer authorization of
             Inl e \<Rightarrow> (Inl (HTTPError e), [])
           | Inr credentials \<Rightarrow>
               (case verify_api_key env credentials of
                  Inl e \<Rightarrow> (Inl (HTTPError e), [])
                | Inr api_key \<Rightarrow>
                    (case parse_CrawlRequest HttpUrl json of
                       None \<Rightarrow> (Inl RequestValidationError, [])
                     | Some request \<Rightarrow>
                         crawl_url crawler (request_url request) (request_max_depth request)))))"

section \<open>The crawler behind \<^verbatim>\<open>arun\<close>, from the specification\<close>

text \<open>
  Modelled from the spec: the crawler itself (\<^verbatim>\<open>AsyncWebCrawler.arun\<close> with or without a
  \<^verbatim>\<open>BFSDeepCrawlStrategy\<close>, imported at lines 5-6) is not under \<^verbatim>\<open>src/\<close>. The
  definitions of this section follow the specification's words for it: the fetch
  capability of section 1, the TraversalPolicy of section 4.2 and the failure policy of the
  CrawlOrchestrator of section 4.3.
\<close>

subsection \<open>Collaborators (spec sections 1 and 3)\<close>

text \<open>
  Modelled from the spec: what \<^verbatim>\<open>fetch(url) -> {finalUrl, html, links[], renderedText}\<close>
  returns for one page.
\<close>

record page =
  finalUrl :: string
  html :: string
  links :: "string list"
  renderedText :: string

text \<open>Modelled from the spec: \<^verbatim>\<open>VisitItem: {url, depth}\<close>, one unit of the traversal.\<close>

record VisitItem =
  item_url :: string
  depth :: nat

text \<open>
  Modelled from the spec: the external capabilities. \<open>fetch\<close> retrieves a page or fails,
  \<open>toText\<close> converts its HTML, \<open>host\<close> reads the host of a URL and \<open>normalize\<close> gives the
  normal form (scheme, host, path, query) under which deduplication compares two URLs.
\<close>

record web =
  fetch :: "string \<Rightarrow> py_exception + page"
  toText :: "string \<Rightarrow> string"
  host :: "string \<Rightarrow> string"
  normalize :: "string \<Rightarrow> string"

subsection \<open>TraversalPolicy and CrawlOrchestrator (spec sections 4.2 and 4.3)\<close>

text \<open>
  Modelled from the spec: the items of one depth level are fetched in their order; each
  success is one visit, and the first failure ends the whole request ("abort the remainder
  of that request's traversal and surface the failure", section 4.3).
\<close>

fun visit_level :: "web \<Rightarrow> nat \<Rightarrow> string list \<Rightarrow> py_exception + (VisitItem \<times> page) list" where
  "visit_level w d [] = Inr []"
| "visit_level w d (u # us) =
     (case fetch w u of
        Inl e \<Rightarrow> Inl e
      | Inr p \<Rightarrow>
          (case visit_level w d us of
             Inl e \<Rightarrow> Inl e
           | Inr visits \<Rightarrow> Inr ((\<lparr>item_url = u, depth = d\<rparr>, p) # visits)))"

text \<open>
  Modelled from the spec: the scope rule. The outbound links of a level's pages, in the
  order the fetch returned them, are candidates only if their host is the seed's; this is
  what \<^verbatim>\<open>include_external=False\<close> (line 42) asks of the strategy.
\<close>

definition candidates ::
  "web \<Rightarrow> BFSDeepCrawlStrategy \<Rightarrow> string \<Rightarrow> (VisitItem \<times> page) list \<Rightarrow> string list" where
  "candidates w s seed visits =
     filter (\<lambda>l. include_external s \<or> host w l = host w seed)
       (concat (map (\<lambda>(v, p). links p) visits))"

text \<open>
  Modelled from the spec: deduplication. A candidate that matches a URL already visited or
  already queued (exact match of the two normal forms) is dropped; the first discovery
  wins and keeps its place.
\<close>

fun enqueue :: "web \<Rightarrow> string list \<Rightarrow> string list \<Rightarrow> string list" where
  "enqueue w visited [] = []"
| "enqueue w visited (l # ls) =
     (if normalize w l \<in> set (map (normalize w) visited) then enqueue w visited ls
      else l # enqueue w (l # visited) ls)"

text \<open>
  Modelled from the spec: breadth-first traversal with a frontier per depth level
  (section 4.2, and the design note on the frontier queue). \<open>n\<close> counts the levels still
  allowed below depth \<open>d\<close>: at the depth ceiling a level is visited and not expanded.
\<close>

fun traverse ::
  "web \<Rightarrow> BFSDeepCrawlStrategy \<Rightarrow> string \<Rightarrow> nat \<Rightarrow> nat \<Rightarrow> string list \<Rightarrow> string list
     \<Rightarrow> py_exception + (VisitItem \<times> page) list" where
  "traverse w s seed 0 d frontier visited = visit_level w d frontier"
| "traverse w s seed (Suc n) d frontier visited =
     (case visit_level w d frontier of
        Inl e \<Rightarrow> Inl e
      | Inr visits \<Rightarrow>
          (let next = enqueue w visited (candidates w s seed visits) in
           case traverse w s seed n (Suc d) next (visited @ next) of
             Inl e \<Rightarrow> Inl e
           | Inr rest \<Rightarrow> Inr (visits @ rest)))"

text \<open>
  Modelled from the spec: \<^verbatim>\<open>expand(seedUrl, maxDepth)\<close>. Without a strategy the sequence is
  the seed alone at depth 0; with one, the traversal starts from the seed, already visited.
\<close>

definition expand ::
  "web \<Rightarrow> string \<Rightarrow> CrawlerRunConfig \<Rightarrow> py_exception + (VisitItem \<times> page) list" where
  "expand w seed cfg =
     (case deep_crawl_strategy cfg of
        None \<Rightarrow> visit_level w 0 [seed]
      | Some s \<Rightarrow> traverse w s seed (nat (max_depth s)) 0 [seed] [seed])"

text \<open>Modelled from the spec: \<^verbatim>\<open>PageResult: {url, text}\<close>, one per fetched page.\<close>

definition PageResult :: "web \<Rightarrow> VisitItem \<times> page \<Rightarrow> crawled" where
  "PageResult w =
     (\<lambda>(v, p). \<lparr>result_url = item_url v, success = True,
                result_markdown = Some (toText w (html p))\<rparr>)"

text \<open>Modelled from the spec: the crawler that \<^verbatim>\<open>crawl_url\<close> calls, results in visit order.\<close>

definition arun :: "web \<Rightarrow> crawler" where
  "arun w seed cfg =
     (case expand w seed cfg of
        Inl e \<Rightarrow> Inl e
      | Inr visits \<Rightarrow> Inr (map (PageResult w) visits))"

abbreviation urls :: "(VisitItem \<times> page) list \<Rightarrow> string list" where
  "urls visits \<equiv> map (\<lambda>x. item_url (fst x)) visits"

abbreviation depths :: "(VisitItem \<times> page) list \<Rightarrow> nat list" where
  "depths visits \<equiv> map (\<lambda>x. depth (fst x)) visits"

text \<open>
  Modelled from the spec: the glossary's depth, "number of link-hops from the seed". A visit
  \<open>x\<close> is discovered from the sequence when some visit one level above it links to it.
\<close>

definition discovered_from :: "(VisitItem \<times> page) list \<Rightarrow> VisitItem \<times> page \<Rightarrow> bool" where
  "discovered_from visits x =
     list_ex (\<lambda>y. Suc (depth (fst y)) = depth (fst x) \<and>
                   item_url (fst x) \<in> set (links (snd y))) visits"

section \<open>Example inputs\<close>

text \<open>A crawler that answers every call with one page for the URL it was given.\<close>

definition one_page :: crawler where
  "one_page u cfg =
     Inr [\<lparr>result_url = u, success = True, result_markdown = Some ''# Example Domain''\<rparr>]"



text \<open>
  A small site: the home page links to two pages of its own host (one of them twice, once
  with a fragment), to itself and to another host; page \<open>a\<close> links on to \<open>b\<close> and \<open>c\<close>.
\<close>

definition site_fetch :: "string \<Rightarrow> py_exception + page" where
  "site_fetch u =
     (if u = ''https://example.com/'' then
        Inr \<lparr>finalUrl = u, html = ''<h1>Home</h1>'',
             links = [''https://example.com/a'', ''https://other.org/'', ''https://example.com/'',
                      ''https://example.com/b'', ''https://example.com/a#top''],
             renderedText = ''Home''\<rparr>
      else if u = ''https://example.com/a'' then
        Inr \<lparr>finalUrl = u, html = ''<h1>A</h1>'',
             links = [''https://example.com/b'', ''https://example.com/c''],
             renderedText = ''A''\<rparr>
      else if u = ''https://example.com/b'' then
        Inr \<lparr>finalUrl = u, html = ''<h1>B</h1>'', links = [''https://example.com/''],
             renderedText = ''B''\<rparr>
      else if u = ''https://example.com/c'' then
        Inr \<lparr>finalUrl = u, html = ''<h1>C</h1>'', links = [], renderedText = ''C''\<rparr>
      else Inl (Exception ''net::ERR_CONNECTION_REFUSED''))"

definition site :: web where
  "site =
     \<lparr>fetch = site_fetch,
      toText = (\<lambda>h. h),
      host = (\<lambda>u. takeWhile (\<lambda>c. c \<noteq> CHR ''/'') (drop 8 u)),
      normalize = takeWhile (\<lambda>c. c \<noteq> CHR ''#'')\<rparr>"

section \<open>Lemmas\<close>

subsection \<open>The endpoint and \<^verbatim>\<open>crawl_url\<close>\<close>

lemma crawl_url_calls: "snd (crawl_url crawler u d) = [(u, config d)]"
  by (simp add: crawl_url_def)

lemma authorized_endpoint:
  "crawl_endpoint HttpUrl env crawler (Some (getenv env ''API_KEY'' ''admin'')) (Decoded body) =
     (case parse_CrawlRequest HttpUrl body of
        None \<Rightarrow> (Inl RequestValidationError, [])
      | Some request \<Rightarrow> crawl_url crawler (request_url request) (request_max_depth request))"
  by (simp add: crawl_endpoint_def HTTPBearer_def verify_api_key_def)

subsection \<open>One level, the queue and the traversal\<close>

lemma visit_level_items:
  "visit_level w d us = Inr vs \<Longrightarrow> map fst vs = map (\<lambda>u. \<lparr>item_url = u, depth = d\<rparr>) us"
  by (induction us arbitrary: vs) (auto split: sum.splits)

lemma visit_level_urls:
  assumes "visit_level w d us = Inr vs"
  shows "urls vs = us"
proof -
  have "map item_url (map fst vs) = map item_url (map (\<lambda>u. \<lparr>item_url = u, depth = d\<rparr>) us)"
    using assms by (simp add: visit_level_items)
  then show ?thesis by (simp add: o_def)
qed

lemma visit_level_depths:
  assumes "visit_level w d us = Inr vs"
  shows "depths vs = replicate (length us) d"
proof -
  have "map depth (map fst vs) = map depth (map (\<lambda>u. \<lparr>item_url = u, depth = d\<rparr>) us)"
    using assms by (simp add: visit_level_items)
  then show ?thesis by (simp add: o_def map_replicate_const)
qed

lemma enqueue_subset: "set (enqueue w visited ls) \<subseteq> set ls"
  by (induction ls arbitrary: visited) auto

lemma enqueue_fresh:
  "l \<in> set (enqueue w visited ls) \<Longrightarrow> normalize w l \<notin> set (map (normalize w) visited)"
proof (induction ls arbitrary: visited)
  case Nil
  then show ?case by simp
next
  case (Cons a ls)
  show ?case
  proof (cases "normalize w a \<in> set (map (normalize w) visited)")
    case True
    then show ?thesis using Cons by simp
  next
    case False
    then have "l = a \<or> l \<in> set (enqueue w (a # visited) ls)" using Cons.prems by simp
    then show ?thesis using False Cons.IH [of "a # visited"] by auto
  qed
qed

lemma enqueue_distinct: "distinct (map (normalize w) (enqueue w visited ls))"
proof (induction ls arbitrary: visited)
  case Nil
  then show ?case by simp
next
  case (Cons a ls)
  have "normalize w a \<notin> set (map (normalize w) (enqueue w (a # visited) ls))"
  proof
    assume "normalize w a \<in> set (map (normalize w) (enqueue w (a # visited) ls))"
    then obtain x where x: "x \<in> set (enqueue w (a # visited) ls)"
        and same: "normalize w x = normalize w a"
      by auto
    from enqueue_fresh [OF x] same show False by simp
  qed
  then show ?case using Cons.IH by simp
qed

lemma candidates_scope:
  "\<not> include_external s \<Longrightarrow> l \<in> set (candidates w s seed visits) \<Longrightarrow> host w l = host w seed"
  by (simp add: candidates_def)

lemma traverse_scope:
  assumes "\<not> include_external s"
  shows "traverse w s seed n d frontier visited = Inr vs \<Longrightarrow> l \<in> set (urls vs)
           \<Longrightarrow> l \<in> set frontier \<or> host w l = host w seed"
proof (induction n arbitrary: d frontier visited vs)
  case 0
  then show ?case by (simp add: visit_level_urls)
next
  case (Suc n)
  from Suc.prems(1) obtain visits rest where
    level: "visit_level w d frontier = Inr visits" and
    deeper: "traverse w s seed n (Suc d) (enqueue w visited (candidates w s seed visits))
               (visited @ enqueue w visited (candidates w s seed visits)) = Inr rest" and
    vs: "vs = visits @ rest"
    by (auto simp: Let_def split: sum.splits)
  from Suc.prems(2) vs have "l \<in> set (urls visits) \<or> l \<in> set (urls rest)" by auto
  then show ?case
  proof
    assume "l \<in> set (urls visits)"
    then show ?thesis using level by (simp add: visit_level_urls)
  next
    assume "l \<in> set (urls rest)"
    from Suc.IH [OF deeper this]
    have "l \<in> set (enqueue w visited (candidates w s seed visits)) \<or> host w l = host w seed" .
    then show ?thesis
      using enqueue_subset [of w visited "candidates w s seed visits"] candidates_scope [OF assms]
      by blast
  qed
qed

lemma traverse_distinct:
  "traverse w s seed n d frontier visited = Inr vs \<Longrightarrow> distinct (map (normalize w) frontier)
     \<Longrightarrow> set frontier \<subseteq> set visited
     \<Longrightarrow> distinct (map (normalize w) (urls vs)) \<and>
         (\<forall>l \<in> set (urls vs). l \<in> set frontier \<or> normalize w l \<notin> set (map (normalize w) visited))"
proof (induction n arbitrary: d frontier visited vs)
  case 0
  then show ?case by (simp add: visit_level_urls)
next
  case (Suc n)
  from Suc.prems(1) obtain visits rest where
    level: "visit_level w d frontier = Inr visits" and
    deeper: "traverse w s seed n (Suc d) (enqueue w visited (candidates w s seed visits))
               (visited @ enqueue w visited (candidates w s seed visits)) = Inr rest" and
    vs: "vs = visits @ rest"
    by (auto simp: Let_def split: sum.splits)
  have front: "urls visits = frontier" using level by (rule visit_level_urls)
  have ih: "distinct (map (normalize w) (urls rest)) \<and>
            (\<forall>l \<in> set (urls rest). l \<in> set (enqueue w visited (candidates w s seed visits)) \<or>
                 normalize w l \<notin> set (map (normalize w)
                                     (visited @ enqueue w visited (candidates w s seed visits))))"
    by (rule Suc.IH [OF deeper]) (simp_all add: enqueue_distinct)
  have fresh: "\<forall>l \<in> set (urls rest). normalize w l \<notin> set (map (normalize w) visited)"
    using ih enqueue_fresh [of _ w visited "candidates w s seed visits"] by auto
  have apart: "set (map (normalize w) frontier) \<inter> set (map (normalize w) (urls rest)) = {}"
  proof -
    have "set (map (normalize w) frontier) \<subseteq> set (map (normalize w) visited)"
      using Suc.prems(3) by auto
    moreover have "set (map (normalize w) (urls rest)) \<inter> set (map (normalize w) visited) = {}"
      using fresh by auto
    ultimately show ?thesis by blast
  qed
  have "urls vs = frontier @ urls rest" using vs front by simp
  then have "distinct (map (normalize w) (urls vs))"
    using Suc.prems(2) ih apart by simp
  moreover have "\<forall>l \<in> set (urls vs). l \<in> set frontier \<or>
                   normalize w l \<notin> set (map (normalize w) visited)"
    using vs front fresh by auto
  ultimately show ?case by blast
qed

lemma traverse_depths:
  "traverse w s seed n d frontier visited = Inr vs
     \<Longrightarrow> sorted (depths vs) \<and> (\<forall>k \<in> set (depths vs). d \<le> k \<and> k \<le> d + n)"
proof (induction n arbitrary: d frontier visited vs)
  case 0
  then show ?case by (simp add: visit_level_depths sorted_replicate)
next
  case (Suc n)
  from Suc.prems(1) obtain visits rest where
    level: "visit_level w d frontier = Inr visits" and
    deeper: "traverse w s seed n (Suc d) (enqueue w visited (candidates w s seed visits))
               (visited @ enqueue w visited (candidates w s seed visits)) = Inr rest" and
    vs: "vs = visits @ rest"
    by (auto simp: Let_def split: sum.splits)
  have here: "depths visits = replicate (length frontier) d"
    using level by (rule visit_level_depths)
  have ih: "sorted (depths rest) \<and> (\<forall>k \<in> set (depths rest). Suc d \<le> k \<and> k \<le> Suc d + n)"
    by (rule Suc.IH [OF deeper])
  have "sorted (depths visits @ depths rest)"
    unfolding sorted_append using here ih by (auto simp: sorted_replicate)
  moreover have "\<forall>k \<in> set (depths visits @ depths rest). d \<le> k \<and> k \<le> d + Suc n"
    using here ih by auto
  ultimately show ?case using vs by simp
qed

lemma discovered_from_mono:
  "discovered_from visits x \<Longrightarrow> set visits \<subseteq> set others \<Longrightarrow> discovered_from others x"
  by (auto simp: discovered_from_def list_ex_iff)

lemma candidates_link:
  assumes "l \<in> set (candidates w s seed visits)"
  shows "\<exists>y \<in> set visits. l \<in> set (links (snd y))"
proof -
  from assms obtain v p where "(v, p) \<in> set visits" and "l \<in> set (links p)"
    by (auto simp: candidates_def)
  then have "l \<in> set (links (snd (v, p)))" by simp
  with \<open>(v, p) \<in> set visits\<close> show ?thesis by blast
qed

lemma visit_level_member:
  assumes "visit_level w d us = Inr vs" and "x \<in> set vs"
  shows "depth (fst x) = d \<and> item_url (fst x) \<in> set us"
proof -
  from assms(2) have "fst x \<in> set (map fst vs)" by simp
  then have "fst x \<in> set (map (\<lambda>u. \<lparr>item_url = u, depth = d\<rparr>) us)"
    using assms(1) by (simp add: visit_level_items)
  then show ?thesis by auto
qed

lemma traverse_discovered:
  "traverse w s seed n d frontier visited = Inr vs \<Longrightarrow> x \<in> set vs
     \<Longrightarrow> (depth (fst x) = d \<and> item_url (fst x) \<in> set frontier) \<or> discovered_from vs x"
proof (induction n arbitrary: d frontier visited vs)
  case 0
  then show ?case by (simp add: visit_level_member)
next
  case (Suc n)
  from Suc.prems(1) obtain visits rest where
    level: "visit_level w d frontier = Inr visits" and
    deeper: "traverse w s seed n (Suc d) (enqueue w visited (candidates w s seed visits))
               (visited @ enqueue w visited (candidates w s seed visits)) = Inr rest" and
    vs: "vs = visits @ rest"
    by (auto simp: Let_def split: sum.splits)
  from Suc.prems(2) vs have "x \<in> set visits \<or> x \<in> set rest" by auto
  then show ?case
  proof
    assume "x \<in> set visits"
    then show ?thesis using level by (simp add: visit_level_member)
  next
    assume x: "x \<in> set rest"
    from Suc.IH [OF deeper x]
    have "(depth (fst x) = Suc d \<and>
            item_url (fst x) \<in> set (enqueue w visited (candidates w s seed visits))) \<or>
          discovered_from rest x" .
    then show ?thesis
    proof
      assume new: "depth (fst x) = Suc d \<and>
                    item_url (fst x) \<in> set (enqueue w visited (candidates w s seed visits))"
      then have "item_url (fst x) \<in> set (candidates w s seed visits)"
        using enqueue_subset by blast
      then obtain y where y: "y \<in> set visits"
          and link: "item_url (fst x) \<in> set (links (snd y))"
        using candidates_link by blast
      have "depth (fst y) = d" using visit_level_member [OF level y] by simp
      then have "discovered_from vs x"
        using new y link vs by (auto simp: discovered_from_def list_ex_iff)
      then show ?thesis ..
    next
      assume "discovered_from rest x"
      then have "discovered_from vs x"
        by (rule discovered_from_mono) (simp add: vs)
      then show ?thesis ..
    qed
  qed
qed

lemma expand_discovered:
  assumes "0 < d" and "expand w u (config d) = Inr visits"
  shows "list_all (\<lambda>x. (depth (fst x) = 0 \<and> item_url (fst x) = u) \<or> discovered_from visits x) visits"
proof -
  from assms have "traverse w \<lparr>max_depth = d, include_external = False\<rparr> u (nat d) 0 [u] [u] = Inr visits"
    by (simp add: expand_def config_def)
  from traverse_discovered [OF this] show ?thesis by (auto simp: list_all_iff)
qed


subsection \<open>\<^verbatim>\<open>crawl_url\<close> over the specified crawler\<close>

lemma crawl_url_arun:
  assumes "expand w u (config d) = Inr visits"
  shows "fst (crawl_url (arun w) u d) =
           Inr (Many (map (\<lambda>x. \<lparr>url = item_url (fst x), markdown = toText w (html (snd x))\<rparr>) visits))"
  using assms by (simp add: crawl_url_def arun_def PageResult_def str_def split_beta)

lemma crawl_url_arun_visits:
  assumes "fst (crawl_url (arun w) u d) = Inr (Many results)"
  shows "\<exists>visits. expand w u (config d) = Inr visits \<and> map url results = urls visits"
proof (cases "expand w u (config d)")
  case (Inl e)
  then show ?thesis using assms by (cases e) (simp_all add: crawl_url_def arun_def)
next
  case (Inr visits)
  from crawl_url_arun [OF this] assms show ?thesis using Inr by (auto simp: o_def)
qed

lemma expand_scope:
  assumes "expand w u (config d) = Inr visits" and "l \<in> set (urls visits)"
  shows "host w l = host w u"
proof (cases "0 < d")
  case True
  then have "traverse w \<lparr>max_depth = d, include_external = False\<rparr> u (nat d) 0 [u] [u] = Inr visits"
    using assms(1) by (simp add: expand_def config_def)
  from traverse_scope [OF _ this assms(2)] show ?thesis by auto
next
  case False
  then have "visit_level w 0 [u] = Inr visits"
    using assms(1) by (simp add: expand_def config_def)
  then have "urls visits = [u]" by (rule visit_level_urls)
  then show ?thesis using assms(2) by simp
qed

lemma expand_distinct:
  assumes "expand w u (config d) = Inr visits"
  shows "distinct (map (normalize w) (urls visits))"
proof (cases "0 < d")
  case True
  then have "traverse w \<lparr>max_depth = d, include_external = False\<rparr> u (nat d) 0 [u] [u] = Inr visits"
    using assms(1) by (simp add: expand_def config_def)
  from traverse_distinct [OF this] show ?thesis by simp
next
  case False
  then have "visit_level w 0 [u] = Inr visits"
    using assms(1) by (simp add: expand_def config_def)
  then have "urls visits = [u]" by (rule visit_level_urls)
  then show ?thesis by simp
qed

lemma expand_depths:
  assumes "0 < d" and "expand w u (config d) = Inr visits"
  shows "sorted (depths visits) \<and> list_all (\<lambda>k. int k \<le> d) (depths visits)"
proof -
  from assms have "traverse w \<lparr>max_depth = d, include_external = False\<rparr> u (nat d) 0 [u] [u] = Inr visits"
    by (simp add: expand_def config_def)
  from traverse_depths [OF this]
  have "sorted (depths visits)" and "\<forall>k \<in> set (depths visits). k \<le> nat d" by simp_all
  then show ?thesis using assms(1) by (auto simp: list_all_iff)
qed

lemma site_depth_2:
  "expand site ''https://example.com/'' (config 2) =
     Inr [(\<lparr>item_url = ''https://example.com/'', depth = 0\<rparr>,
           \<lparr>finalUrl = ''https://example.com/'', html = ''<h1>Home</h1>'',
            links = [''https://example.com/a'', ''https://other.org/'', ''https://example.com/'',
                     ''https://example.com/b'', ''https://example.com/a#top''],
            renderedText = ''Home''\<rparr>),
          (\<lparr>item_url = ''https://example.com/a'', depth = 1\<rparr>,
           \<lparr>finalUrl = ''https://example.com/a'', html = ''<h1>A</h1>'',
            links = [''https://example.com/b'', ''https://example.com/c''],
            renderedText = ''A''\<rparr>),
          (\<lparr>item_url = ''https://example.com/b'', depth = 1\<rparr>,
           \<lparr>finalUrl = ''https://example.com/b'', html = ''<h1>B</h1>'',
            links = [''https://example.com/''], renderedText = ''B''\<rparr>),
          (\<lparr>item_url = ''https://example.com/c'', depth = 2\<rparr>,
           \<lparr>finalUrl = ''https://example.com/c'', html = ''<h1>C</h1>'', links = [],
            renderedText = ''C''\<rparr>)]"
  by (simp add: expand_def config_def site_def site_fetch_def candidates_def numeral_2_eq_2)

lemma site_crawl_2:
  "fst (crawl_url (arun site) ''https://example.com/'' 2) =
     Inr (Many [\<lparr>url = ''https://example.com/'', markdown = ''<h1>Home</h1>''\<rparr>,
                \<lparr>url = ''https://example.com/a'', markdown = ''<h1>A</h1>''\<rparr>,
                \<lparr>url = ''https://example.com/b'', markdown = ''<h1>B</h1>''\<rparr>,
                \<lparr>url = ''https://example.com/c'', markdown = ''<h1>C</h1>''\<rparr>])"
  by (simp add: crawl_url_arun [OF site_depth_2]) (simp add: site_def)

subsection \<open>First discovery\<close>

lemma find_append_first: "find P xs = Some x \<Longrightarrow> find P (xs @ ys) = Some x"
  by (induction xs) (auto split: if_splits)

lemma find_append_skip: "\<forall>k \<in> set xs. \<not> P k \<Longrightarrow> find P (xs @ ys) = find P ys"
  by (induction xs) auto

lemma enqueue_first:
  "l \<in> set (enqueue w visited ls)
     \<Longrightarrow> find (\<lambda>k. normalize w k = normalize w l) ls = Some l"
proof (induction ls arbitrary: visited)
  case Nil
  then show ?case by simp
next
  case (Cons a ls)
  show ?case
  proof (cases "normalize w a \<in> set (map (normalize w) visited)")
    case True
    then have l: "l \<in> set (enqueue w visited ls)" using Cons.prems by simp
    from enqueue_fresh [OF l] True have "normalize w a \<noteq> normalize w l" by auto
    then show ?thesis using Cons.IH [OF l] by simp
  next
    case False
    then have "l = a \<or> l \<in> set (enqueue w (a # visited) ls)" using Cons.prems by simp
    then show ?thesis
    proof
      assume "l = a"
      then show ?thesis by simp
    next
      assume l: "l \<in> set (enqueue w (a # visited) ls)"
      from enqueue_fresh [OF l] have "normalize w a \<noteq> normalize w l" by auto
      then show ?thesis using Cons.IH [OF l] by simp
    qed
  qed
qed

lemma enqueue_covers:
  "k \<in> set ls
     \<Longrightarrow> normalize w k \<in> set (map (normalize w) (visited @ enqueue w visited ls))"
proof (induction ls arbitrary: visited)
  case Nil
  then show ?case by simp
next
  case (Cons a ls)
  show ?case
  proof (cases "normalize w a \<in> set (map (normalize w) visited)")
    case True
    show ?thesis
    proof (cases "k = a")
      case True
      then show ?thesis using \<open>normalize w a \<in> set (map (normalize w) visited)\<close> by auto
    next
      case False
      then have "k \<in> set ls" using Cons.prems by simp
      from Cons.IH [OF this, of visited] show ?thesis using True by simp
    qed
  next
    case False
    show ?thesis
    proof (cases "k = a")
      case True
      then show ?thesis using False by simp
    next
      case neq: False
      then have "k \<in> set ls" using Cons.prems by simp
      from Cons.IH [OF this, of "a # visited"] show ?thesis using False by auto
    qed
  qed
qed

lemma candidates_append:
  "candidates w s seed (xs @ ys) = candidates w s seed xs @ candidates w s seed ys"
  by (simp add: candidates_def)

lemma traverse_first:
  "traverse w s seed n d frontier visited = Inr vs \<Longrightarrow> set frontier \<subseteq> set visited
     \<Longrightarrow> l \<in> set (urls vs)
     \<Longrightarrow> l \<in> set frontier \<or>
         (find (\<lambda>k. normalize w k = normalize w l)
            (candidates w s seed (filter (\<lambda>x. depth (fst x) < d + n) vs)) = Some l \<and>
          normalize w l \<notin> set (map (normalize w) visited))"
proof (induction n arbitrary: d frontier visited vs)
  case 0
  then show ?case by (simp add: visit_level_urls)
next
  case (Suc n)
  from Suc.prems(1) obtain visits rest where
    level: "visit_level w d frontier = Inr visits" and
    deeper: "traverse w s seed n (Suc d) (enqueue w visited (candidates w s seed visits))
               (visited @ enqueue w visited (candidates w s seed visits)) = Inr rest" and
    vs: "vs = visits @ rest"
    by (auto simp: Let_def split: sum.splits)
  let ?cands = "candidates w s seed visits"
  let ?next = "enqueue w visited ?cands"
  let ?later = "candidates w s seed (filter (\<lambda>x. depth (fst x) < Suc d + n) rest)"
  have "filter (\<lambda>x. depth (fst x) < d + Suc n) visits = visits"
    using visit_level_member [OF level] by (auto simp: filter_id_conv)
  then have expanded: "candidates w s seed (filter (\<lambda>x. depth (fst x) < d + Suc n) vs) = ?cands @ ?later"
    by (simp add: vs candidates_append)
  from Suc.prems(3) vs have "l \<in> set (urls visits) \<or> l \<in> set (urls rest)" by auto
  then show ?case
  proof
    assume "l \<in> set (urls visits)"
    then show ?thesis using level by (simp add: visit_level_urls)
  next
    assume "l \<in> set (urls rest)"
    from Suc.IH [OF deeper _ this]
    have "l \<in> set ?next \<or>
          (find (\<lambda>k. normalize w k = normalize w l) ?later = Some l \<and>
           normalize w l \<notin> set (map (normalize w) (visited @ ?next)))"
      by simp
    then show ?thesis
    proof
      assume new: "l \<in> set ?next"
      have "find (\<lambda>k. normalize w k = normalize w l) (?cands @ ?later) = Some l"
        using enqueue_first [OF new] by (rule find_append_first)
      moreover have "normalize w l \<notin> set (map (normalize w) visited)"
        using new by (rule enqueue_fresh)
      ultimately show ?thesis using expanded by simp
    next
      assume old: "find (\<lambda>k. normalize w k = normalize w l) ?later = Some l \<and>
                   normalize w l \<notin> set (map (normalize w) (visited @ ?next))"
      from old have unseen: "normalize w l \<notin> set (map (normalize w) (visited @ ?next))"
        by blast
      have "\<forall>k \<in> set ?cands. \<not> normalize w k = normalize w l"
      proof
        fix k assume "k \<in> set ?cands"
        then have "normalize w k \<in> set (map (normalize w) (visited @ ?next))"
          by (rule enqueue_covers)
        with unseen show "\<not> normalize w k = normalize w l" by metis
      qed
      then have "find (\<lambda>k. normalize w k = normalize w l) (?cands @ ?later) =
                 find (\<lambda>k. normalize w k = normalize w l) ?later"
        by (rule find_append_skip)
      then show ?thesis using old expanded by simp
    qed
  qed
qed

lemma expand_first:
  assumes "expand w u (config d) = Inr visits" and "l \<in> set (urls visits)"
  shows "l = u \<or>
         find (\<lambda>k. normalize w k = normalize w l)
           (candidates w \<lparr>max_depth = d, include_external = False\<rparr> u
              (filter (\<lambda>x. int (depth (fst x)) < d) visits)) = Some l"
proof (cases "0 < d")
  case True
  then have run: "traverse w \<lparr>max_depth = d, include_external = False\<rparr> u (nat d) 0 [u] [u] = Inr visits"
    using assms(1) by (simp add: expand_def config_def)
  have same: "filter (\<lambda>x. depth (fst x) < 0 + nat d) visits =
              filter (\<lambda>x. int (depth (fst x)) < d) visits"
    using True by (intro filter_cong) auto
  have "l \<in> set [u] \<or>
        (find (\<lambda>k. normalize w k = normalize w l)
           (candidates w \<lparr>max_depth = d, include_external = False\<rparr> u
              (filter (\<lambda>x. depth (fst x) < 0 + nat d) visits)) = Some l \<and>
         normalize w l \<notin> set (map (normalize w) [u]))"
    by (rule traverse_first [OF run _ assms(2)]) simp
  then show ?thesis unfolding same by auto
next
  case False
  then have "visit_level w 0 [u] = Inr visits"
    using assms(1) by (simp add: expand_def config_def)
  then have "urls visits = [u]" by (rule visit_level_urls)
  then show ?thesis using assms(2) by simp
qed

section \<open>The claims\<close>

text \<open>
  C1, as the code has it: for every request with \<^verbatim>\<open>max_depth == 0\<close> whose seed fetch
  succeeds, \<^verbatim>\<open>crawl_url\<close> returns a one-element list holding the seed page's
  \<^verbatim>\<open>CrawlResult\<close>, url plus markdown, and the url is the seed URL as \<^verbatim>\<open>str(request.url)\<close>
  gave it. Whatever the crawler, the value is the list that line 50 builds from the
  crawler's results, one object per result, and at no depth the unwrapped object.
\<close>

theorem depth_zero_returns_one_element_list:
  assumes "fetch w u = Inr p"
  shows "fst (crawl_url (arun w) u 0) = Inr (Many [\<lparr>url = u, markdown = toText w (html p)\<rparr>]) \<and>
         (crawler v (config 0) = Inr results \<longrightarrow>
            fst (crawl_url crawler v 0) =
              Inr (Many (map (\<lambda>result. \<lparr>url = result_url result,
                                        markdown = str (result_markdown result)\<rparr>) results))) \<and>
         fst (crawl_url crawler v k) \<noteq> Inr (Single x)"
proof -
  have "expand w u (config 0) = Inr [(\<lparr>item_url = u, depth = 0\<rparr>, p)]"
    using assms by (simp add: expand_def config_def)
  from crawl_url_arun [OF this]
  have "fst (crawl_url (arun w) u 0) = Inr (Many [\<lparr>url = u, markdown = toText w (html p)\<rparr>])"
    by simp
  moreover have "fst (crawl_url crawler v k) \<noteq> Inr (Single x)"
    by (simp add: crawl_url_def split: sum.split py_exception.split)
  ultimately show ?thesis by (simp add: crawl_url_def)
qed

text \<open>
  C1, the theorem at the home page of the example site, and at a crawler that yields one
  page for \<^verbatim>\<open>https://example.com/\<close>.
\<close>

theorem depth_zero_returns_one_element_list_witness:
  "fst (crawl_url (arun site) ''https://example.com/'' 0) =
     Inr (Many [\<lparr>url = ''https://example.com/'', markdown = ''<h1>Home</h1>''\<rparr>]) \<and>
   fst (crawl_url one_page ''https://example.com/'' 0) =
     Inr (Many [\<lparr>url = ''https://example.com/'', markdown = ''# Example Domain''\<rparr>])"
proof -
  have fetched: "fetch site ''https://example.com/'' =
      Inr \<lparr>finalUrl = ''https://example.com/'', html = ''<h1>Home</h1>'',
           links = [''https://example.com/a'', ''https://other.org/'', ''https://example.com/'',
                    ''https://example.com/b'', ''https://example.com/a#top''],
           renderedText = ''Home''\<rparr>"
    by (simp add: site_def site_fetch_def)
  from depth_zero_returns_one_element_list
         [OF fetched, of one_page "''https://example.com/''"
            "[\<lparr>result_url = ''https://example.com/'', success = True,
               result_markdown = Some ''# Example Domain''\<rparr>]"]
  show ?thesis by (simp add: site_def one_page_def str_def)
qed

text \<open>
  C1 as stated fails: at depth 0 and a successful fetch of \<^verbatim>\<open>https://example.com/\<close> the
  value returned is the one-element list, and it is not the single object.
\<close>

theorem depth_zero_unwrapped_counterexample:
  "fst (crawl_url one_page ''https://example.com/'' 0) =
     Inr (Many [\<lparr>url = ''https://example.com/'', markdown = ''# Example Domain''\<rparr>]) \<and>
   fst (crawl_url one_page ''https://example.com/'' 0) \<noteq>
     Inr (Single \<lparr>url = ''https://example.com/'', markdown = ''# Example Domain''\<rparr>)"
  by (simp add: crawl_url_def one_page_def str_def)







text \<open>
  C4, as the code has it: \<^verbatim>\<open>max_depth: int = 1\<close> has no lower bound, so an authorised
  request with a valid URL and a negative \<^verbatim>\<open>max_depth\<close> passes validation, and the endpoint
  makes one call to the crawler, for the seed URL with no deep-crawl strategy; its answer
  is made from what the crawler answers to that call: the list of its results, or the
  \<^verbatim>\<open>500\<close> for its exception.
\<close>

theorem negative_depth_passes_validation:
  assumes "d < 0" and "body_max_depth body = Some d" and "HttpUrl (body_url body) = Some u"
  shows "parse_CrawlRequest HttpUrl body = Some \<lparr>request_url = u, request_max_depth = d\<rparr> \<and>
         snd (crawl_endpoint HttpUrl env crawler (Some (getenv env ''API_KEY'' ''admin''))
                (Decoded body)) =
           [(u, \<lparr>magic = True, cache_mode = BYPASS, deep_crawl_strategy = None, verbose = True\<rparr>)] \<and>
         fst (crawl_endpoint HttpUrl env crawler (Some (getenv env ''API_KEY'' ''admin''))
                (Decoded body)) =
           (case crawler u \<lparr>magic = True, cache_mode = BYPASS, deep_crawl_strategy = None,
                             verbose = True\<rparr> of
              Inr results \<Rightarrow>
                Inr (Many (map (\<lambda>result. \<lparr>url = result_url result,
                                          markdown = str (result_markdown result)\<rparr>) results))
            | Inl (Exception e) \<Rightarrow>
                Inl (HTTPError \<lparr>status_code = 500, detail = ''Crawling failed: '' @ e,
                                headers = []\<rparr>)
            | Inl (BaseException e) \<Rightarrow> Inl (Unhandled (BaseException e)))"
proof -
  have parsed: "parse_CrawlRequest HttpUrl body = Some \<lparr>request_url = u, request_max_depth = d\<rparr>"
    using assms(2,3) by (simp add: parse_CrawlRequest_def)
  have run: "crawl_endpoint HttpUrl env crawler (Some (getenv env ''API_KEY'' ''admin''))
               (Decoded body) = crawl_url crawler u d"
    by (simp add: authorized_endpoint parsed)
  have single: "config d =
      \<lparr>magic = True, cache_mode = BYPASS, deep_crawl_strategy = None, verbose = True\<rparr>"
    using assms(1) by (simp add: config_def)
  show ?thesis unfolding run using parsed by (simp add: crawl_url_def single)
qed

text \<open>C4, the theorem at \<^verbatim>\<open>max_depth = -1\<close> with the default secret.\<close>

theorem negative_depth_passes_validation_witness:
  "parse_CrawlRequest Some \<lparr>body_url = ''https://example.com/'', body_max_depth = Some (- 1)\<rparr> =
     Some \<lparr>request_url = ''https://example.com/'', request_max_depth = - 1\<rparr> \<and>
   snd (crawl_endpoint Some Map.empty one_page (Some ''admin'')
          (Decoded \<lparr>body_url = ''https://example.com/'', body_max_depth = Some (- 1)\<rparr>)) =
     [(''https://example.com/'',
       \<lparr>magic = True, cache_mode = BYPASS, deep_crawl_strategy = None, verbose = True\<rparr>)] \<and>
   fst (crawl_endpoint Some Map.empty one_page (Some ''admin'')
          (Decoded \<lparr>body_url = ''https://example.com/'', body_max_depth = Some (- 1)\<rparr>)) =
     Inr (Many [\<lparr>url = ''https://example.com/'', markdown = ''# Example Domain''\<rparr>])"
  using negative_depth_passes_validation
          [of "- 1" "\<lparr>body_url = ''https://example.com/'', body_max_depth = Some (- 1)\<rparr>" Some
              "''https://example.com/''" Map.empty one_page]
  by (simp add: getenv_def one_page_def str_def)

text \<open>
  C4 as stated fails: the authorised request for \<^verbatim>\<open>https://example.com/\<close> with
  \<^verbatim>\<open>max_depth = -1\<close> is not rejected; the crawler is called once and its page is returned.
\<close>

theorem negative_depth_rejected_counterexample:
  "crawl_endpoint Some Map.empty one_page (Some ''admin'')
     (Decoded \<lparr>body_url = ''https://example.com/'', body_max_depth = Some (- 1)\<rparr>) =
   (Inr (Many [\<lparr>url = ''https://example.com/'', markdown = ''# Example Domain''\<rparr>]),
    [(''https://example.com/'',
      \<lparr>magic = True, cache_mode = BYPASS, deep_crawl_strategy = None, verbose = True\<rparr>)])"
  by (simp add: crawl_endpoint_def HTTPBearer_def verify_api_key_def getenv_def
      parse_CrawlRequest_def crawl_url_def config_def one_page_def str_def)

text \<open>
  C5: for every request with \<^verbatim>\<open>max_depth > 0\<close> whose traversal succeeds, the returned
  sequence is the sequence of visits, one \<^verbatim>\<open>CrawlResult\<close> each, in visit order; every visit
  has a depth of at most \<^verbatim>\<open>max_depth\<close>; the depths never decrease along the sequence, so
  no result of depth \<open>k + 1\<close> stands before a result of depth \<open>k\<close>; and the depth is the
  depth of discovery: a visit is the seed at depth 0 or is linked from a visit one level
  above it.
\<close>

theorem breadth_first_within_depth:
  assumes "0 < d" and "expand w u (config d) = Inr visits"
  shows "fst (crawl_url (arun w) u d) =
           Inr (Many (map (\<lambda>x. \<lparr>url = item_url (fst x), markdown = toText w (html (snd x))\<rparr>) visits)) \<and>
         list_all (\<lambda>k. int k \<le> d) (depths visits) \<and>
         sorted (depths visits) \<and>
         list_all (\<lambda>x. (depth (fst x) = 0 \<and> item_url (fst x) = u) \<or> discovered_from visits x) visits"
  using crawl_url_arun [OF assms(2)] expand_depths [OF assms] expand_discovered [OF assms]
  by simp

text \<open>C5, the theorem at the example site, \<^verbatim>\<open>max_depth = 2\<close>: depths 0, 1, 1, 2.\<close>

theorem breadth_first_within_depth_witness:
  "fst (crawl_url (arun site) ''https://example.com/'' 2) =
     Inr (Many [\<lparr>url = ''https://example.com/'', markdown = ''<h1>Home</h1>''\<rparr>,
                \<lparr>url = ''https://example.com/a'', markdown = ''<h1>A</h1>''\<rparr>,
                \<lparr>url = ''https://example.com/b'', markdown = ''<h1>B</h1>''\<rparr>,
                \<lparr>url = ''https://example.com/c'', markdown = ''<h1>C</h1>''\<rparr>]) \<and>
   list_all (\<lambda>k. int k \<le> 2) [0, 1, 1, 2] \<and> sorted [0, 1, 1, 2::nat]"
proof -
  have positive: "(0::int) < 2" by simp
  from breadth_first_within_depth [OF positive site_depth_2]
  show ?thesis by (simp add: site_def)
qed

text \<open>
  C6: every \<^verbatim>\<open>CrawlResult\<close> of an outcome has the host of the seed URL, and whatever the
  pages visited so far, every link that passes the scope filter into the queue has the
  seed's host: a link to another host is dropped before it is queued and never visited.
\<close>

theorem results_stay_on_seed_host:
  assumes "fst (crawl_url (arun w) u d) = Inr (Many results)"
  shows "list_all (\<lambda>r. host w (url r) = host w u) results \<and>
         list_all (\<lambda>l. host w l = host w u)
           (enqueue w visited (candidates w \<lparr>max_depth = d, include_external = False\<rparr> u visits))"
proof -
  from crawl_url_arun_visits [OF assms] obtain vs where
    vs: "expand w u (config d) = Inr vs" and same: "map url results = urls vs"
    by blast
  have "\<forall>l \<in> set (map url results). host w l = host w u"
    unfolding same using expand_scope [OF vs] by blast
  then have "list_all (\<lambda>r. host w (url r) = host w u) results"
    by (simp add: list_all_iff)
  moreover have "list_all (\<lambda>l. host w l = host w u)
           (enqueue w visited (candidates w \<lparr>max_depth = d, include_external = False\<rparr> u visits))"
    using enqueue_subset [of w visited "candidates w \<lparr>max_depth = d, include_external = False\<rparr> u visits"]
      candidates_scope [of "\<lparr>max_depth = d, include_external = False\<rparr>" _ w u visits]
    by (auto simp: list_all_iff)
  ultimately show ?thesis ..
qed

text \<open>
  C6, the theorem at the example site, whose home page links to \<^verbatim>\<open>https://other.org/\<close>.
\<close>

theorem results_stay_on_seed_host_witness:
  "list_all (\<lambda>r. host site (url r) = host site ''https://example.com/'')
     [\<lparr>url = ''https://example.com/'', markdown = ''<h1>Home</h1>''\<rparr>,
      \<lparr>url = ''https://example.com/a'', markdown = ''<h1>A</h1>''\<rparr>,
      \<lparr>url = ''https://example.com/b'', markdown = ''<h1>B</h1>''\<rparr>,
      \<lparr>url = ''https://example.com/c'', markdown = ''<h1>C</h1>''\<rparr>] \<and>
   ''https://other.org/'' \<notin> set (enqueue site [''https://example.com/'']
      (candidates site \<lparr>max_depth = 2, include_external = False\<rparr> ''https://example.com/''
         [(\<lparr>item_url = ''https://example.com/'', depth = 0\<rparr>,
           \<lparr>finalUrl = ''https://example.com/'', html = ''<h1>Home</h1>'',
            links = [''https://example.com/a'', ''https://other.org/''], renderedText = ''Home''\<rparr>)]))"
proof -
  from results_stay_on_seed_host [OF site_crawl_2]
  show ?thesis by (simp add: site_def candidates_def)
qed

text \<open>
  C7: no URL appears twice in an outcome's sequence, and no two of its URLs have the same
  normal form: a link that matches a URL already visited or queued (exact match of the
  normal forms) is not queued again, however many links lead to it. The first discovery
  wins: every URL of the outcome other than the seed is the first link with its normal
  form among the in-scope links of the expanded pages (those above the depth ceiling),
  taken in visit order and, within a page, in the order the fetch returned them.
\<close>

theorem no_url_twice:
  assumes "expand w u (config d) = Inr visits"
  shows "fst (crawl_url (arun w) u d) =
           Inr (Many (map (\<lambda>x. \<lparr>url = item_url (fst x), markdown = toText w (html (snd x))\<rparr>) visits)) \<and>
         distinct (urls visits) \<and>
         distinct (map (normalize w) (urls visits)) \<and>
         list_all (\<lambda>l. l = u \<or>
                     find (\<lambda>k. normalize w k = normalize w l)
                       (candidates w \<lparr>max_depth = d, include_external = False\<rparr> u
                          (filter (\<lambda>x. int (depth (fst x)) < d) visits)) = Some l)
           (urls visits)"
proof -
  have normal: "distinct (map (normalize w) (urls visits))"
    using assms by (rule expand_distinct)
  then have plain: "distinct (urls visits)"
    using distinct_map [of "normalize w" "urls visits"] by blast
  have first: "list_all (\<lambda>l. l = u \<or>
                     find (\<lambda>k. normalize w k = normalize w l)
                       (candidates w \<lparr>max_depth = d, include_external = False\<rparr> u
                          (filter (\<lambda>x. int (depth (fst x)) < d) visits)) = Some l)
           (urls visits)"
    unfolding list_all_iff using expand_first [OF assms] by blast
  show ?thesis using crawl_url_arun [OF assms] normal plain first by blast
qed

text \<open>
  C7, the theorem at the example site, \<^verbatim>\<open>max_depth = 2\<close>, where \<open>a\<close> is linked twice (the
  second time with a fragment), \<open>b\<close> from two pages and the home page from itself and from
  \<open>b\<close>: the link visited for \<open>a\<close> is the first one, without the fragment.
\<close>

theorem no_url_twice_witness:
  "fst (crawl_url (arun site) ''https://example.com/'' 2) =
     Inr (Many [\<lparr>url = ''https://example.com/'', markdown = ''<h1>Home</h1>''\<rparr>,
                \<lparr>url = ''https://example.com/a'', markdown = ''<h1>A</h1>''\<rparr>,
                \<lparr>url = ''https://example.com/b'', markdown = ''<h1>B</h1>''\<rparr>,
                \<lparr>url = ''https://example.com/c'', markdown = ''<h1>C</h1>''\<rparr>]) \<and>
   distinct [''https://example.com/'', ''https://example.com/a'', ''https://example.com/b'',
             ''https://example.com/c''] \<and>
   find (\<lambda>k. normalize site k = normalize site ''https://example.com/a'')
     [''https://example.com/a'', ''https://example.com/'', ''https://example.com/b'',
      ''https://example.com/a#top'', ''https://example.com/b'', ''https://example.com/c'',
      ''https://example.com/''] = Some ''https://example.com/a''"
  using no_url_twice [OF site_depth_2] by (simp add: site_def candidates_def)

text \<open>
  C8: the bearer comparison uses one value read from the environment, \<^verbatim>\<open>API_KEY\<close>: a
  token is authorised exactly when it equals that value, or the default \<^verbatim>\<open>admin\<close> when
  the variable is unset; so with the variable unset the token \<^verbatim>\<open>admin\<close> is authorised.
\<close>

theorem secret_from_environment_or_default:
  "(verify_api_key env token = Inr token \<longleftrightarrow>
      token = (case env ''API_KEY'' of None \<Rightarrow> ''admin'' | Some secret \<Rightarrow> secret)) \<and>
   (env ''API_KEY'' = None \<longrightarrow> verify_api_key env ''admin'' = Inr ''admin'')"
  by (simp add: verify_api_key_def getenv_def split: option.splits)

text \<open>
  C8, the theorem at the empty environment with the token \<^verbatim>\<open>admin\<close>, and at an environment
  that sets \<^verbatim>\<open>API_KEY\<close>, where \<^verbatim>\<open>admin\<close> is refused.
\<close>

theorem secret_from_environment_or_default_witness:
  "verify_api_key Map.empty ''admin'' = Inr ''admin'' \<and>
   verify_api_key [''API_KEY'' \<mapsto> ''s3cret''] ''s3cret'' = Inr ''s3cret'' \<and>
   verify_api_key [''API_KEY'' \<mapsto> ''s3cret''] ''admin'' \<noteq> Inr ''admin''"
  using secret_from_environment_or_default [of Map.empty "''admin''"]
    secret_from_environment_or_default [of "[''API_KEY'' \<mapsto> ''s3cret'']" "''s3cret''"]
    secret_from_environment_or_default [of "[''API_KEY'' \<mapsto> ''s3cret'']" "''admin''"]
  by simp

text \<open>
  C9: a request body with a valid \<^verbatim>\<open>url\<close> and no \<^verbatim>\<open>max_depth\<close> parses to a request with
  \<^verbatim>\<open>max_depth = 1\<close>, and an authorised request of that kind is a deep crawl of depth 1:
  the endpoint runs \<^verbatim>\<open>crawl_url\<close> at depth 1, whose one call to the crawler carries a
  breadth-first strategy of depth 1 without external links.
\<close>

theorem omitted_max_depth_is_1:
  assumes "body_max_depth body = None" and "HttpUrl (body_url body) = Some u"
  shows "parse_CrawlRequest HttpUrl body = Some \<lparr>request_url = u, request_max_depth = 1\<rparr> \<and>
         crawl_endpoint HttpUrl env crawler (Some (getenv env ''API_KEY'' ''admin'')) (Decoded body) =
           crawl_url crawler u 1 \<and>
         snd (crawl_url crawler u 1) =
           [(u, \<lparr>magic = True, cache_mode = BYPASS,
                 deep_crawl_strategy = Some \<lparr>max_depth = 1, include_external = False\<rparr>,
                 verbose = True\<rparr>)]"
proof -
  have parsed: "parse_CrawlRequest HttpUrl body = Some \<lparr>request_url = u, request_max_depth = 1\<rparr>"
    using assms by (simp add: parse_CrawlRequest_def)
  have "crawl_endpoint HttpUrl env crawler (Some (getenv env ''API_KEY'' ''admin'')) (Decoded body) =
          crawl_url crawler u 1"
    by (simp add: authorized_endpoint parsed)
  then show ?thesis using parsed by (simp add: crawl_url_calls config_def)
qed

text \<open>C9, the theorem at the body \<^verbatim>\<open>{"url": "https://example.com/"}\<close>.\<close>

theorem omitted_max_depth_is_1_witness:
  "parse_CrawlRequest Some \<lparr>body_url = ''https://example.com/'', body_max_depth = None\<rparr> =
     Some \<lparr>request_url = ''https://example.com/'', request_max_depth = 1\<rparr> \<and>
   crawl_endpoint Some Map.empty one_page (Some ''admin'')
     (Decoded \<lparr>body_url = ''https://example.com/'', body_max_depth = None\<rparr>) =
   crawl_url one_page ''https://example.com/'' 1"
  using omitted_max_depth_is_1
          [of "\<lparr>body_url = ''https://example.com/'', body_max_depth = None\<rparr>" Some
              "''https://example.com/''" Map.empty one_page]
  by (simp add: getenv_def)

text \<open>
  C10: for \<^verbatim>\<open>max_depth < 0\<close>, \<^verbatim>\<open>crawl_url\<close> builds the configuration of
  \<^verbatim>\<open>max_depth == 0\<close>, which has no deep-crawl strategy, and behaves as at depth 0: it
  makes its one call to the crawler for the seed URL with that configuration, and its
  result is made from the crawler's answer to that single-page call, the list of its
  results or the \<^verbatim>\<open>500\<close> for its exception; and the request model accepts the negative
  depth as it is.
\<close>

theorem negative_depth_is_single_page:
  assumes "d < 0" and "HttpUrl v = Some u"
  shows "config d = config 0 \<and>
         deep_crawl_strategy (config d) = None \<and>
         crawl_url crawler u d = crawl_url crawler u 0 \<and>
         snd (crawl_url crawler u d) = [(u, config 0)] \<and>
         fst (crawl_url crawler u d) =
           (case crawler u \<lparr>magic = True, cache_mode = BYPASS, deep_crawl_strategy = None,
                             verbose = True\<rparr> of
              Inr results \<Rightarrow>
                Inr (Many (map (\<lambda>result. \<lparr>url = result_url result,
                                          markdown = str (result_markdown result)\<rparr>) results))
            | Inl (Exception e) \<Rightarrow>
                Inl (HTTPError \<lparr>status_code = 500, detail = ''Crawling failed: '' @ e,
                                headers = []\<rparr>)
            | Inl (BaseException e) \<Rightarrow> Inl (Unhandled (BaseException e))) \<and>
         parse_CrawlRequest HttpUrl \<lparr>body_url = v, body_max_depth = Some d\<rparr> =
           Some \<lparr>request_url = u, request_max_depth = d\<rparr>"
  using assms by (simp add: crawl_url_def config_def parse_CrawlRequest_def)

text \<open>C10, the theorem at \<^verbatim>\<open>max_depth = -3\<close> and the seed \<^verbatim>\<open>https://example.com/\<close>.\<close>

theorem negative_depth_is_single_page_witness:
  "config (- 3) = config 0 \<and>
   crawl_url one_page ''https://example.com/'' (- 3) = crawl_url one_page ''https://example.com/'' 0 \<and>
   snd (crawl_url one_page ''https://example.com/'' (- 3)) = [(''https://example.com/'', config 0)] \<and>
   fst (crawl_url one_page ''https://example.com/'' (- 3)) =
     Inr (Many [\<lparr>url = ''https://example.com/'', markdown = ''# Example Domain''\<rparr>]) \<and>
   parse_CrawlRequest Some \<lparr>body_url = ''https://example.com/'', body_max_depth = Some (- 3)\<rparr> =
     Some \<lparr>request_url = ''https://example.com/'', request_max_depth = - 3\<rparr>"
  using negative_depth_is_single_page
          [of "- 3" Some "''https://example.com/''" "''https://example.com/''" one_page]
  by (simp add: crawl_url_def config_def one_page_def str_def)

end
